theory Spec2Isabelle
  imports Complex_Main "HOL-Library.AList" "HOL-Library.Char_ord" "HOL-Library.List_Lexorder"
begin

section \<open>Data model\<close>

text \<open>
  The TypeScript interface \<^verbatim>\<open>ModelResult\<close>. The field \<^verbatim>\<open>tags\<close> is optional in the
  model because the code guards every read of it (\<^verbatim>\<open>if (result.tags)\<close>,
  \<^verbatim>\<open>model.tags && ...\<close>, \<^verbatim>\<open>tags || []\<close>). \<^verbatim>\<open>downloads\<close> is an integer-valued
  JavaScript number; \<^verbatim>\<open>distance\<close> is a finite JavaScript number, compared through the sign
  of a difference, which for finite values is the sign of the exact difference.
  A string is a sequence of UTF-16 code units below 256 (the Latin-1 range), one \<open>char\<close>
  for each code unit.
\<close>

record ModelResult =
  model_id :: string
  tags :: "string list option"
  downloads :: int
  distance :: real

datatype js_error = TypeError

section \<open>Base-model name\<close>

text \<open>\<^verbatim>\<open>String.prototype.split\<close> with a one-character separator: a left-to-right scan
  that closes the current piece at every separator. The result is never empty.\<close>

fun split_scan :: "char \<Rightarrow> string \<Rightarrow> string \<Rightarrow> string list" where
  "split_scan sep cur [] = [cur]"
| "split_scan sep cur (c # cs) =
     (if c = sep then cur # split_scan sep [] cs else split_scan sep (cur @ [c]) cs)"

definition js_split :: "string \<Rightarrow> char \<Rightarrow> string list" where
  "js_split s sep = split_scan sep [] s"

text \<open>
  \<^verbatim>\<open>
  function getBaseModelName(modelId: string): string {
    const parts = modelId.split('/')
    const modelName = parts.length > 1 ? parts[1] : parts[0]
    const baseName = modelName.split('-')[0]
    return parts.length > 1 ? `${parts[0]}/${baseName}` : baseName
  }
  \<close>
\<close>

definition getBaseModelName :: "string \<Rightarrow> string" where
  "getBaseModelName modelId =
     (let parts = js_split modelId CHR ''/'';
          modelName = (if length parts > 1 then parts ! 1 else parts ! 0);
          baseName = js_split modelName CHR ''-'' ! 0
      in if length parts > 1 then (parts ! 0) @ ''/'' @ baseName else baseName)"

section \<open>Filter, sort and limit\<close>

text \<open>
  \<^verbatim>\<open>Array.prototype.sort(cmp)\<close>. ECMAScript requires the sort to be stable and to place
  \<open>a\<close> before \<open>b\<close> when \<open>cmp(a, b) < 0\<close>: elements are inserted from the right, and an
  element moves behind another only when the comparator is positive.
\<close>

fun js_insert :: "('a \<Rightarrow> 'a \<Rightarrow> 'b::{zero,linorder}) \<Rightarrow> 'a \<Rightarrow> 'a list \<Rightarrow> 'a list" where
  "js_insert cmp x [] = [x]"
| "js_insert cmp x (y # ys) = (if 0 < cmp x y then y # js_insert cmp x ys else x # y # ys)"

definition js_sort :: "('a \<Rightarrow> 'a \<Rightarrow> 'b::{zero,linorder}) \<Rightarrow> 'a list \<Rightarrow> 'a list" where
  "js_sort cmp xs = foldr (js_insert cmp) xs []"

text \<open>
  \<^verbatim>\<open>Array.prototype.slice(0, end)\<close> for an integer \<open>end\<close>: a negative \<open>end\<close> counts from the
  end of the array.
\<close>

definition js_slice0 :: "'a list \<Rightarrow> int \<Rightarrow> 'a list" where
  "js_slice0 xs e =
     (let len = int (length xs);
          final = (if e < 0 then max (len + e) 0 else min e len)
      in take (nat final) xs)"

text \<open>
  The body of the second effect of \<^verbatim>\<open>Home\<close>, step by step:
  \<^verbatim>\<open>
    let filtered = [...results]
    if (selectedTags.length > 0) {
      filtered = filtered.filter((model) =>
        model.tags && selectedTags.some((tag) => model.tags.includes(tag)))
    }
    filtered = filtered.filter((model) =>
      model.downloads >= downloadRange[0] && model.downloads <= downloadRange[1])
    if (sortOption === "downloads-high") {
      filtered.sort((a, b) => b.downloads - a.downloads)
    } else if (sortOption === "downloads-low") {
      filtered.sort((a, b) => a.downloads - b.downloads)
    } else if (sortOption === "relevance") {
      filtered.sort((a, b) => a.distance - b.distance)
    }
    filtered = filtered.slice(0, resultsLimit)
  \<close>
\<close>

definition filterByTags :: "string list \<Rightarrow> ModelResult list \<Rightarrow> ModelResult list" where
  "filterByTags selectedTags filtered =
     (if length selectedTags > 0
      then filter (\<lambda>model. case tags model of
                              None \<Rightarrow> False
                            | Some ts \<Rightarrow> list_ex (\<lambda>tag. tag \<in> set ts) selectedTags) filtered
      else filtered)"

definition filterByDownloads :: "int \<times> int \<Rightarrow> ModelResult list \<Rightarrow> ModelResult list" where
  "filterByDownloads downloadRange filtered =
     filter (\<lambda>model. downloads model \<ge> fst downloadRange \<and> downloads model \<le> snd downloadRange)
            filtered"

definition applySorting :: "string \<Rightarrow> ModelResult list \<Rightarrow> ModelResult list" where
  "applySorting sortOption filtered =
     (if sortOption = ''downloads-high'' then js_sort (\<lambda>a b. downloads b - downloads a) filtered
      else if sortOption = ''downloads-low'' then js_sort (\<lambda>a b. downloads a - downloads b) filtered
      else if sortOption = ''relevance'' then js_sort (\<lambda>a b. distance a - distance b) filtered
      else filtered)"

definition filterAndSort ::
  "ModelResult list \<Rightarrow> string list \<Rightarrow> int \<times> int \<Rightarrow> string \<Rightarrow> ModelResult list" where
  "filterAndSort results selectedTags downloadRange sortOption =
     applySorting sortOption (filterByDownloads downloadRange (filterByTags selectedTags results))"

definition applyFilters ::
  "ModelResult list \<Rightarrow> string list \<Rightarrow> int \<times> int \<Rightarrow> string \<Rightarrow> int \<Rightarrow> ModelResult list" where
  "applyFilters results selectedTags downloadRange sortOption resultsLimit =
     js_slice0 (filterAndSort results selectedTags downloadRange sortOption) resultsLimit"

subsection \<open>The pipeline as the specification words it\<close>

text \<open>An absent tag collection counts as empty.\<close>

definition tags_of :: "ModelResult \<Rightarrow> string list" where
  "tags_of m = (case tags m of None \<Rightarrow> [] | Some ts \<Rightarrow> ts)"

text \<open>Tag filter: with a non-empty selection, keep the items whose tags intersect it.\<close>

definition spec_tag_filter :: "string list \<Rightarrow> ModelResult list \<Rightarrow> ModelResult list" where
  "spec_tag_filter sel xs =
     (if sel = [] then xs else filter (\<lambda>m. set (tags_of m) \<inter> set sel \<noteq> {}) xs)"

text \<open>Download-range filter: keep the items with downloads in \<open>[low, high]\<close>, both ends
  included.\<close>

definition spec_range_filter :: "int \<times> int \<Rightarrow> ModelResult list \<Rightarrow> ModelResult list" where
  "spec_range_filter r xs = filter (\<lambda>m. downloads m \<in> {fst r .. snd r}) xs"

text \<open>Sort: stable, ascending by distance, descending by downloads or ascending by
  downloads; any other mode leaves the order alone. \<^const>\<open>sort_key\<close> is the library's stable
  sort.\<close>

definition spec_sort :: "string \<Rightarrow> ModelResult list \<Rightarrow> ModelResult list" where
  "spec_sort mode xs =
     (if mode = ''relevance'' then sort_key distance xs
      else if mode = ''downloads-high'' then sort_key (\<lambda>m. - downloads m) xs
      else if mode = ''downloads-low'' then sort_key downloads xs
      else xs)"

definition spec_pipeline ::
  "ModelResult list \<Rightarrow> string list \<Rightarrow> int \<times> int \<Rightarrow> string \<Rightarrow> nat \<Rightarrow> ModelResult list" where
  "spec_pipeline raw sel r mode limit =
     take limit (spec_sort mode (spec_range_filter r (spec_tag_filter sel raw)))"

text \<open>Sample data.\<close>

definition item :: "string \<Rightarrow> string list \<Rightarrow> int \<Rightarrow> real \<Rightarrow> ModelResult" where
  "item i ts d r = \<lparr>model_id = i, tags = Some ts, downloads = d, distance = r\<rparr>"

definition five_items :: "ModelResult list" where
  "five_items =
     [item ''org/a'' [''text''] 50 (9/10),
      item ''org/b'' [''text''] 10 (1/10),
      item ''org/c'' [''text''] 30 (1/2),
      item ''org/d'' [''text''] 20 (1/10),
      item ''org/e'' [''text''] 40 (7/10)]"

definition two_tagged :: "ModelResult list" where
  "two_tagged =
     [item ''org/x'' [''alpha''] 5 (1/2),
      item ''org/y'' [''beta''] 5 (1/10)]"

section \<open>Grouping by base name\<close>

text \<open>
  \<^verbatim>\<open>GroupedModels\<close> is a plain JavaScript object used as a dictionary. The model keeps its
  own properties in creation order. Reading \<^verbatim>\<open>grouped[key]\<close> finds an own property, or else
  a property inherited from \<^verbatim>\<open>Object.prototype\<close> (a function, or the prototype object for
  \<^verbatim>\<open>__proto__\<close>: truthy, and without a \<^verbatim>\<open>push\<close> method), or else \<^verbatim>\<open>undefined\<close>.
\<close>

type_synonym GroupedModels = "(string \<times> ModelResult list) list"

definition Object_prototype_keys :: "string list" where
  "Object_prototype_keys =
     [''constructor'', ''hasOwnProperty'', ''isPrototypeOf'', ''propertyIsEnumerable'',
      ''toLocaleString'', ''toString'', ''valueOf'', ''__proto__'',
      ''__defineGetter__'', ''__defineSetter__'', ''__lookupGetter__'', ''__lookupSetter__'']"

datatype 'v js_value = Undefined | Inherited | Own 'v

definition js_get :: "(string \<times> 'v) list \<Rightarrow> string \<Rightarrow> 'v js_value" where
  "js_get obj key =
     (case map_of obj key of
        Some v \<Rightarrow> Own v
      | None \<Rightarrow> if key \<in> set Object_prototype_keys then Inherited else Undefined)"

text \<open>
  \<^verbatim>\<open>
  models.forEach(model => {
    const baseName = getBaseModelName(model.model_id)
    if (!grouped[baseName]) {
      grouped[baseName] = []
    }
    grouped[baseName].push(model)
  })
  \<close>
  An own property holds an array, which is truthy even when empty. Calling \<^verbatim>\<open>push\<close> on an
  inherited value throws a \<^verbatim>\<open>TypeError\<close>, which ends the \<^verbatim>\<open>forEach\<close>.
\<close>

definition group_step :: "GroupedModels \<Rightarrow> ModelResult \<Rightarrow> js_error + GroupedModels" where
  "group_step grouped model =
     (let baseName = getBaseModelName (model_id model);
          grouped = (if js_get grouped baseName = Undefined
                     then AList.update baseName [] grouped else grouped)
      in case js_get grouped baseName of
           Own ms \<Rightarrow> Inr (AList.update baseName (ms @ [model]) grouped)
         | _ \<Rightarrow> Inl TypeError)"

fun forEach_group :: "GroupedModels \<Rightarrow> ModelResult list \<Rightarrow> js_error + GroupedModels" where
  "forEach_group grouped [] = Inr grouped"
| "forEach_group grouped (model # models) =
     (case group_step grouped model of
        Inl e \<Rightarrow> Inl e
      | Inr grouped' \<Rightarrow> forEach_group grouped' models)"

definition groupModelsByBaseName :: "ModelResult list \<Rightarrow> js_error + GroupedModels" where
  "groupModelsByBaseName models = forEach_group [] models"

text \<open>
  \<^verbatim>\<open>Object.entries(groupedResults)\<close>, by which the groups are rendered, enumerates the own
  properties whose key is an array index (a canonical decimal numeral below \<open>2^32 - 1\<close>) first,
  in ascending numeric order, and then the other keys in creation order.
\<close>

definition is_digit :: "char \<Rightarrow> bool" where
  "is_digit c = (c \<in> set ''0123456789'')"

definition nat_of_digits :: "string \<Rightarrow> nat" where
  "nat_of_digits s = foldl (\<lambda>n c. 10 * n + (of_char c - 48)) 0 s"

definition is_array_index :: "string \<Rightarrow> bool" where
  "is_array_index s =
     (s \<noteq> [] \<and> list_all is_digit s \<and> (s = ''0'' \<or> hd s \<noteq> CHR ''0'')
      \<and> nat_of_digits s < 4294967295)"

definition Object_entries :: "(string \<times> 'v) list \<Rightarrow> (string \<times> 'v) list" where
  "Object_entries obj =
     sort_key (\<lambda>kv. nat_of_digits (fst kv)) (filter (\<lambda>kv. is_array_index (fst kv)) obj)
     @ filter (\<lambda>kv. \<not> is_array_index (fst kv)) obj"

text \<open>
  The second effect stores \<^verbatim>\<open>groupModelsByBaseName(filtered)\<close>, and the page renders
  \<^verbatim>\<open>Object.entries(groupedResults)\<close>.
\<close>

definition renderedGroups :: "ModelResult list \<Rightarrow> js_error + GroupedModels" where
  "renderedGroups filtered =
     (case groupModelsByBaseName filtered of
        Inl e \<Rightarrow> Inl e
      | Inr grouped \<Rightarrow> Inr (Object_entries grouped))"

subsection \<open>Grouping as the specification words it\<close>

definition baseOf :: "ModelResult \<Rightarrow> string" where
  "baseOf m = getBaseModelName (model_id m)"

text \<open>The distinct elements of a list, in the order of their first occurrence.\<close>

definition first_occurrences :: "'a list \<Rightarrow> 'a list" where
  "first_occurrences ks = rev (remdups (rev ks))"

text \<open>One group for each base name, in first-occurrence order; its members are the items
  with that base name, in input order.\<close>

definition spec_groups :: "ModelResult list \<Rightarrow> GroupedModels" where
  "spec_groups models =
     map (\<lambda>k. (k, filter (\<lambda>m. baseOf m = k) models)) (first_occurrences (map baseOf models))"

section \<open>Group statistics\<close>

record GroupStats =
  group_minDownloads :: int
  group_maxDownloads :: int
  bestRelevance :: real
  bestTags :: "string list"

text \<open>\<^verbatim>\<open>Math.min\<close> and \<^verbatim>\<open>Math.max\<close> applied to at least one argument.\<close>

definition Math_min :: "int \<Rightarrow> int list \<Rightarrow> int" where
  "Math_min x xs = fold min xs x"

definition Math_max :: "int \<Rightarrow> int list \<Rightarrow> int" where
  "Math_max x xs = fold max xs x"

text \<open>
  \<^verbatim>\<open>
  function getGroupStats(models: ModelResult[]) {
    const sortedByRelevance = [...models].sort((a, b) => a.distance - b.distance)
    const mostRelevantModel = sortedByRelevance[0]
    const minDownloads = Math.min(...models.map(m => m.downloads))
    const maxDownloads = Math.max(...models.map(m => m.downloads))
    return {
      minDownloads,
      maxDownloads,
      bestRelevance: mostRelevantModel.distance,
      bestTags: mostRelevantModel.tags || []
    }
  }
  \<close>
  On an empty array \<^verbatim>\<open>mostRelevantModel\<close> is \<^verbatim>\<open>undefined\<close> and reading its \<^verbatim>\<open>distance\<close>
  throws.
\<close>

fun getGroupStats :: "ModelResult list \<Rightarrow> js_error + GroupStats" where
  "getGroupStats [] = Inl TypeError"
| "getGroupStats (m # ms) =
     (let models = m # ms;
          sortedByRelevance = js_sort (\<lambda>a b. distance a - distance b) models;
          mostRelevantModel = sortedByRelevance ! 0
      in Inr \<lparr>group_minDownloads = Math_min (downloads m) (map downloads ms),
              group_maxDownloads = Math_max (downloads m) (map downloads ms),
              bestRelevance = distance mostRelevantModel,
              bestTags = (case tags mostRelevantModel of Some ts \<Rightarrow> ts | None \<Rightarrow> [])\<rparr>)"

text \<open>More sample data.\<close>

definition stats_group :: "ModelResult list" where
  "stats_group =
     [item ''org/m-small'' [''text''] 10 (1/2),
      item ''org/m-large'' [''vision'', ''audio''] 30 (1/5)]"

definition numeric_named :: "ModelResult list" where
  "numeric_named = [item ''b-1'' [] 1 0, item ''7-x'' [] 1 0]"

definition prototype_named :: "ModelResult list" where
  "prototype_named = [item ''org/a-1'' [] 1 0, item ''constructor'' [] 1 0]"

section \<open>Tag display filter\<close>

text \<open>
  \<^verbatim>\<open>
  const COMMON_EXCLUDED_TAGS = new Set(['transformers'])
  const EXCLUDED_TAG_PREFIXES = ['arxiv:', 'base_model:', 'dataset:', 'diffusers:', 'license:']

  function filterTagForDisplay(tag: string): boolean {
    if (!tag || typeof tag !== 'string') return false
    const lowerTag = tag.toLowerCase()
    return (
      tag.length > 3 &&
      !COMMON_EXCLUDED_TAGS.has(lowerTag) &&
      !EXCLUDED_TAG_PREFIXES.some((prefix) => lowerTag.startsWith(prefix))
    )
  }
  \<close>
\<close>

definition COMMON_EXCLUDED_TAGS :: "string list" where
  "COMMON_EXCLUDED_TAGS = [''transformers'']"

definition EXCLUDED_TAG_PREFIXES :: "string list" where
  "EXCLUDED_TAG_PREFIXES = [''arxiv:'', ''base_model:'', ''dataset:'', ''diffusers:'', ''license:'']"

text \<open>
  \<^verbatim>\<open>String.prototype.toLowerCase\<close> on code units below 256: the letters \<open>A\<close> to \<open>Z\<close> and the
  Latin-1 capitals \<open>0xC0\<close> to \<open>0xDE\<close> (without the multiplication sign \<open>0xD7\<close>) move up by
  \<open>0x20\<close>; every other code unit stays.
\<close>

definition upper_case_letters :: string where
  "upper_case_letters =
     ''ABCDEFGHIJKLMNOPQRSTUVWXYZ''
     @ [CHR 0xC0, CHR 0xC1, CHR 0xC2, CHR 0xC3, CHR 0xC4, CHR 0xC5, CHR 0xC6, CHR 0xC7,
        CHR 0xC8, CHR 0xC9, CHR 0xCA, CHR 0xCB, CHR 0xCC, CHR 0xCD, CHR 0xCE, CHR 0xCF,
        CHR 0xD0, CHR 0xD1, CHR 0xD2, CHR 0xD3, CHR 0xD4, CHR 0xD5, CHR 0xD6,
        CHR 0xD8, CHR 0xD9, CHR 0xDA, CHR 0xDB, CHR 0xDC, CHR 0xDD, CHR 0xDE]"

definition lower_case_letters :: string where
  "lower_case_letters =
     ''abcdefghijklmnopqrstuvwxyz''
     @ [CHR 0xE0, CHR 0xE1, CHR 0xE2, CHR 0xE3, CHR 0xE4, CHR 0xE5, CHR 0xE6, CHR 0xE7,
        CHR 0xE8, CHR 0xE9, CHR 0xEA, CHR 0xEB, CHR 0xEC, CHR 0xED, CHR 0xEE, CHR 0xEF,
        CHR 0xF0, CHR 0xF1, CHR 0xF2, CHR 0xF3, CHR 0xF4, CHR 0xF5, CHR 0xF6,
        CHR 0xF8, CHR 0xF9, CHR 0xFA, CHR 0xFB, CHR 0xFC, CHR 0xFD, CHR 0xFE]"

definition toLowerCase :: "string \<Rightarrow> string" where
  "toLowerCase s =
     map (\<lambda>c. case map_of (zip upper_case_letters lower_case_letters) c of
                 Some l \<Rightarrow> l
               | None \<Rightarrow> c) s"

definition startsWith :: "string \<Rightarrow> string \<Rightarrow> bool" where
  "startsWith s p = (take (length p) s = p)"

definition filterTagForDisplay :: "string \<Rightarrow> bool" where
  "filterTagForDisplay tag =
     (if tag = [] then False
      else let lowerTag = toLowerCase tag
           in length tag > 3
              \<and> lowerTag \<notin> set COMMON_EXCLUDED_TAGS
              \<and> \<not> list_ex (\<lambda>prefix. startsWith lowerTag prefix) EXCLUDED_TAG_PREFIXES)"

section \<open>Component state\<close>

text \<open>The \<^verbatim>\<open>useState\<close> variables of \<^verbatim>\<open>Home\<close> that the search, the facets and the filters
  read or write, with their initial values.\<close>

record HomeState =
  query :: string
  results :: "ModelResult list"
  loading :: bool
  error :: "string option"
  availableTags :: "string list"
  selectedTags :: "string list"
  downloadRange :: "int \<times> int"
  maxDownloads :: int
  sortOption :: string
  resultsLimit :: int

definition initialState :: HomeState where
  "initialState =
     \<lparr>query = [], results = [], loading = False, error = None, availableTags = [],
      selectedTags = [], downloadRange = (0, 1000000), maxDownloads = 1000000,
      sortOption = ''relevance'', resultsLimit = 40\<rparr>"

subsection \<open>Facet extraction\<close>

text \<open>
  \<^verbatim>\<open>
  useEffect(() => {
    if (results.length > 0) {
      const tags = new Set<string>()
      let maxDownload = 0
      results.forEach((result) => {
        if (result.tags) {
          result.tags.forEach((tag) => {
            if (filterTagForDisplay(tag)) {
              tags.add(tag)
            }
          })
        }
        if (result.downloads > maxDownload) {
          maxDownload = result.downloads
        }
      })
      setAvailableTags(Array.from(tags).sort())
      setMaxDownloads(maxDownload)
      setDownloadRange([0, maxDownload])
    }
  }, [results])
  \<close>
  A \<^verbatim>\<open>Set\<close> keeps its elements in insertion order; \<^verbatim>\<open>sort()\<close> without a comparator orders
  strings by their code units.
\<close>

definition set_add :: "'a list \<Rightarrow> 'a \<Rightarrow> 'a list" where
  "set_add s x = (if x \<in> set s then s else s @ [x])"

definition facet_step :: "string list \<times> int \<Rightarrow> ModelResult \<Rightarrow> string list \<times> int" where
  "facet_step acc result =
     (let tagSet = (case tags result of
                      None \<Rightarrow> fst acc
                    | Some ts \<Rightarrow>
                        foldl (\<lambda>s tag. if filterTagForDisplay tag then set_add s tag else s)
                              (fst acc) ts);
          maxDownload = (if downloads result > snd acc then downloads result else snd acc)
      in (tagSet, maxDownload))"

definition js_sort_default :: "string list \<Rightarrow> string list" where
  "js_sort_default xs = js_sort (\<lambda>a b. if a < b then - 1 else if b < a then 1 else (0::int)) xs"

definition facetEffect :: "HomeState \<Rightarrow> HomeState" where
  "facetEffect st =
     (if length (results st) > 0
      then let acc = foldl facet_step ([], 0) (results st)
           in st\<lparr>availableTags := js_sort_default (fst acc),
                 maxDownloads := snd acc,
                 downloadRange := (0, snd acc)\<rparr>
      else st)"

subsection \<open>User actions\<close>

text \<open>
  \<^verbatim>\<open>
  const toggleTagFilter = (tag: string) => {
    setSelectedTags((prev) => (prev.includes(tag) ? prev.filter((t) => t !== tag) : [...prev, tag]))
  }
  const clearFilters = () => {
    setSelectedTags([])
    setDownloadRange([0, maxDownloads])
    setSortOption("relevance")
    setResultsLimit(40)
  }
  \<close>
\<close>

definition toggleTagFilter :: "string \<Rightarrow> HomeState \<Rightarrow> HomeState" where
  "toggleTagFilter tag st =
     st\<lparr>selectedTags := (if tag \<in> set (selectedTags st)
                          then filter (\<lambda>t. t \<noteq> tag) (selectedTags st)
                          else selectedTags st @ [tag])\<rparr>"

definition clearFilters :: "HomeState \<Rightarrow> HomeState" where
  "clearFilters st =
     st\<lparr>selectedTags := [], downloadRange := (0, maxDownloads st),
        sortOption := ''relevance'', resultsLimit := 40\<rparr>"

definition setQuery :: "string \<Rightarrow> HomeState \<Rightarrow> HomeState" where
  "setQuery q st = st\<lparr>query := q\<rparr>"

subsection \<open>Search\<close>

text \<open>
  What the outside world answers: \<^verbatim>\<open>fetch\<close> rejects with a thrown value, or resolves with a
  response carrying a status, a status text and a body; \<^verbatim>\<open>response.json()\<close> rejects or
  yields data whose \<^verbatim>\<open>results\<close> field may be missing. A thrown value is an \<^verbatim>\<open>Error\<close> with a
  message or something else.
\<close>

datatype thrown = Error string | NonError

datatype json_body = JsonRejected thrown | JsonData "ModelResult list option"

datatype fetch_result = FetchRejected thrown | FetchResponse nat string json_body

definition response_ok :: "nat \<Rightarrow> bool" where
  "response_ok status = (200 \<le> status \<and> status \<le> 299)"

text \<open>The decimal numeral of a number, as a template literal prints it: written out by
  \<^verbatim>\<open>show_nat\<close> below, and characterised by \<open>decimal_numeral\<close>, which reads the digits back.\<close>

definition decimal_numeral :: "string \<Rightarrow> nat \<Rightarrow> bool" where
  "decimal_numeral s n =
     (s \<noteq> [] \<and> list_all is_digit s \<and> (s = ''0'' \<or> hd s \<noteq> CHR ''0'') \<and> nat_of_digits s = n)"

function show_nat :: "nat \<Rightarrow> string" where
  "show_nat n =
     (if n < 10 then [''0123456789'' ! n] else show_nat (n div 10) @ [''0123456789'' ! (n mod 10)])"
  by pat_completeness auto
termination
  by (relation "measure id") auto

declare show_nat.simps [simp del]

text \<open>
  \<^verbatim>\<open>String.prototype.trim\<close> removes white space and line terminators from both ends. Below
  256 these are the tab, the line feed, the vertical tab, the form feed, the carriage return,
  the space and the no-break space \<open>0xA0\<close>.
\<close>

definition is_whitespace :: "char \<Rightarrow> bool" where
  "is_whitespace c =
     (c \<in> set [CHR 0x09, CHR 0x0A, CHR 0x0B, CHR 0x0C, CHR 0x0D, CHR '' '', CHR 0xA0])"

definition js_trim :: "string \<Rightarrow> string" where
  "js_trim s = rev (dropWhile is_whitespace (rev (dropWhile is_whitespace s)))"

text \<open>
  The \<^verbatim>\<open>try\<close> block of \<^verbatim>\<open>handleSearch\<close>: it ends by throwing, or with the array handed to
  \<^verbatim>\<open>setResults\<close>.
  \<^verbatim>\<open>
      const backendUrl = process.env.NEXT_PUBLIC_BACKEND_URL;
      if (!backendUrl) {
        throw new Error("Backend URL is not configured in environment variables.");
      }
      const response = await fetch(`${backendUrl}/search`, { ... })
      if (!response.ok) {
        throw new Error(`Server responded with ${response.status}: ${response.statusText}`)
      }
      const data = await response.json()
      setResults(data.results || [])
  \<close>
\<close>

definition searchRequest :: "string option \<Rightarrow> fetch_result \<Rightarrow> thrown + ModelResult list" where
  "searchRequest backendUrl fetched =
     (if backendUrl = None \<or> backendUrl = Some []
      then Inl (Error ''Backend URL is not configured in environment variables.'')
      else case fetched of
             FetchRejected e \<Rightarrow> Inl e
           | FetchResponse status statusText body \<Rightarrow>
               if \<not> response_ok status
               then Inl (Error (''Server responded with '' @ show_nat status @ '': '' @ statusText))
               else (case body of
                       JsonRejected e \<Rightarrow> Inl e
                     | JsonData None \<Rightarrow> Inr []
                     | JsonData (Some rs) \<Rightarrow> Inr rs))"

text \<open>
  A block of statements runs on the state and ends normally or by throwing; what it wrote
  before throwing stays written. The result is the thrown value, if any, with the state the
  block leaves. In \<^verbatim>\<open>try { body } catch (err) { handler } finally { finalizer }\<close> the handler
  runs when the body throws, the finalizer runs in every case, and the statement throws what
  the finalizer throws, or else what the handler throws.
\<close>

definition try_catch_finally ::
  "('s \<Rightarrow> thrown option \<times> 's) \<Rightarrow> (thrown \<Rightarrow> 's \<Rightarrow> thrown option \<times> 's)
     \<Rightarrow> ('s \<Rightarrow> thrown option \<times> 's) \<Rightarrow> 's \<Rightarrow> thrown option \<times> 's" where
  "try_catch_finally body handler finalizer st =
     (let tried = body st;
          caught = (case fst tried of
                      None \<Rightarrow> tried
                    | Some err \<Rightarrow> handler err (snd tried));
          finished = finalizer (snd caught)
      in case fst finished of
           Some e \<Rightarrow> finished
         | None \<Rightarrow> (fst caught, snd finished))"

text \<open>
  The submit handler \<^verbatim>\<open>handleSearch\<close>; the result is the value that escapes to the caller,
  if any, with the state the handler leaves.
  \<^verbatim>\<open>
  const handleSearch = async (e: React.FormEvent) => {
    e.preventDefault()
    if (!query.trim()) return
    setLoading(true)
    setError(null)
    setSelectedTags([])
    try {
      ...
    } catch (err) {
      setError(err instanceof Error ? err.message : "An unknown error occurred")
      console.error(err)
    } finally {
      setLoading(false)
    }
  }
  \<close>
\<close>

definition handleSearch ::
  "string option \<Rightarrow> fetch_result \<Rightarrow> HomeState \<Rightarrow> thrown option \<times> HomeState" where
  "handleSearch backendUrl fetched st =
     (if js_trim (query st) = [] then (None, st)
      else try_catch_finally
             (\<lambda>st. case searchRequest backendUrl fetched of
                     Inl e \<Rightarrow> (Some e, st)
                   | Inr rs \<Rightarrow> (None, st\<lparr>results := rs\<rparr>))
             (\<lambda>err st. (None, st\<lparr>error := Some (case err of
                                                    Error message \<Rightarrow> message
                                                  | NonError \<Rightarrow> ''An unknown error occurred'')\<rparr>))
             (\<lambda>st. (None, st\<lparr>loading := False\<rparr>))
             (st\<lparr>loading := True, error := None, selectedTags := []\<rparr>))"

text \<open>
  A submission as the component settles it: \<^verbatim>\<open>handleSearch\<close>, and then the facet effect
  when \<^verbatim>\<open>setResults\<close> was called (the array is a new one, so React runs the effects that
  depend on \<^verbatim>\<open>results\<close>).
\<close>

definition submitSearch :: "string option \<Rightarrow> fetch_result \<Rightarrow> HomeState \<Rightarrow> HomeState" where
  "submitSearch backendUrl fetched st =
     (let st' = snd (handleSearch backendUrl fetched st)
      in if js_trim (query st) = [] then st'
         else case searchRequest backendUrl fetched of
                Inr rs \<Rightarrow> facetEffect st'
              | Inl err \<Rightarrow> st')"

text \<open>Sample states and answers.\<close>

definition tagged_items :: "ModelResult list" where
  "tagged_items =
     [item ''org/a'' [''text-generation'', ''pytorch'', ''en'', ''license:mit''] 50 (9/10),
      \<lparr>model_id = ''org/b'', tags = None, downloads = 70, distance = 1/10\<rparr>,
      item ''org/c'' [''pytorch'', ''Transformers'', ''audio''] 30 (1/2)]"

definition customised :: HomeState where
  "customised =
     initialState\<lparr>query := ''bert'', selectedTags := [''pytorch''],
                  sortOption := ''downloads-high'', resultsLimit := 10\<rparr>"

definition blank_query :: HomeState where
  "blank_query = customised\<lparr>query := [CHR '' '', CHR 0xA0, CHR 0x09]\<rparr>"

definition backend :: "string option" where
  "backend = Some ''https://backend.example''"

definition after_empty_answer :: HomeState where
  "after_empty_answer =
     submitSearch backend (FetchResponse 200 ''OK'' (JsonData (Some [])))
       (submitSearch backend (FetchResponse 200 ''OK'' (JsonData (Some tagged_items))) customised)"

section \<open>Properties of the base-name extractor\<close>

lemma split_scan_no_sep: "sep \<notin> set xs \<Longrightarrow> split_scan sep cur xs = [cur @ xs]"
  by (induction xs arbitrary: cur) auto

lemma split_scan_first_sep:
  "sep \<notin> set xs \<Longrightarrow> split_scan sep cur (xs @ sep # ys) = (cur @ xs) # split_scan sep [] ys"
  by (induction xs arbitrary: cur) auto

lemma js_split_no_sep: "sep \<notin> set xs \<Longrightarrow> js_split xs sep = [xs]"
  by (simp add: js_split_def split_scan_no_sep)

lemma js_split_first_sep:
  "sep \<notin> set xs \<Longrightarrow> js_split (xs @ sep # ys) sep = xs # js_split ys sep"
  by (simp add: js_split_def split_scan_first_sep)

lemma split_scan_head:
  "split_scan sep cur xs ! 0 = cur @ takeWhile (\<lambda>c. c \<noteq> sep) xs"
  by (induction xs arbitrary: cur) auto

lemma js_split_head: "js_split s sep ! 0 = takeWhile (\<lambda>c. c \<noteq> sep) s"
  by (simp add: js_split_def split_scan_head)

lemma split_scan_nonempty: "split_scan sep cur xs \<noteq> []"
  by (induction xs arbitrary: cur) auto

lemma js_split_length: "0 < length (js_split s sep)"
  by (simp add: js_split_def split_scan_nonempty)

lemma takeWhile_until_sep:
  "sep \<notin> set xs \<Longrightarrow> takeWhile (\<lambda>c. c \<noteq> sep) (xs @ sep # ys) = xs"
  by (induction xs) auto

lemma takeWhile_no_sep: "sep \<notin> set xs \<Longrightarrow> takeWhile (\<lambda>c. c \<noteq> sep) xs = xs"
  by (induction xs) auto

lemma getBaseModelName_namespaced:
  assumes "CHR ''/'' \<notin> set ns" and "CHR ''/'' \<notin> set name"
  shows "getBaseModelName (ns @ ''/'' @ name) =
         ns @ ''/'' @ takeWhile (\<lambda>c. c \<noteq> CHR ''-'') name"
proof -
  have "js_split (ns @ CHR ''/'' # name) CHR ''/'' = [ns, name]"
    using assms by (simp add: js_split_first_sep js_split_no_sep)
  then show ?thesis
    by (simp add: getBaseModelName_def Let_def js_split_head)
qed

lemma getBaseModelName_bare:
  assumes "CHR ''/'' \<notin> set name"
  shows "getBaseModelName name = takeWhile (\<lambda>c. c \<noteq> CHR ''-'') name"
  using assms by (simp add: getBaseModelName_def Let_def js_split_head js_split_no_sep)

text \<open>
  Claim C7. For identifiers of the two formats of the data model (\<open>namespace/name\<close> with no
  further slash, or a bare \<open>name\<close>): a namespaced identifier whose name part is
  \<open>pre-rest\<close>, where \<open>pre\<close> has no hyphen, maps to \<open>namespace/pre\<close>; a namespaced identifier
  whose name part has no hyphen maps to itself; a bare identifier \<open>pre-rest\<close> maps to \<open>pre\<close>,
  and a bare identifier with no hyphen maps to itself.
\<close>

theorem getBaseModelName_formats:
  assumes "CHR ''/'' \<notin> set ns" and "CHR ''/'' \<notin> set pre" and "CHR ''/'' \<notin> set rest"
    and "CHR ''-'' \<notin> set pre"
  shows "getBaseModelName (ns @ ''/'' @ pre @ ''-'' @ rest) = ns @ ''/'' @ pre
       \<and> getBaseModelName (ns @ ''/'' @ pre) = ns @ ''/'' @ pre
       \<and> getBaseModelName (pre @ ''-'' @ rest) = pre
       \<and> getBaseModelName pre = pre"
proof -
  have tw: "takeWhile (\<lambda>c. c \<noteq> CHR ''-'') (pre @ CHR ''-'' # rest) = pre"
    using assms(4) by (rule takeWhile_until_sep)
  have tw': "takeWhile (\<lambda>c. c \<noteq> CHR ''-'') pre = pre"
    using assms(4) by (rule takeWhile_no_sep)
  have "getBaseModelName (ns @ ''/'' @ (pre @ ''-'' @ rest)) = ns @ ''/'' @ pre"
    using assms tw by (subst getBaseModelName_namespaced) simp_all
  moreover have "getBaseModelName (ns @ ''/'' @ pre) = ns @ ''/'' @ pre"
    using assms tw' by (subst getBaseModelName_namespaced) simp_all
  moreover have "getBaseModelName (pre @ ''-'' @ rest) = pre"
    using assms tw by (subst getBaseModelName_bare) simp_all
  moreover have "getBaseModelName pre = pre"
    using assms tw' by (subst getBaseModelName_bare) simp_all
  ultimately show ?thesis by simp
qed

theorem getBaseModelName_formats_witness:
  "getBaseModelName ''org/name-7b'' = ''org/name''
   \<and> getBaseModelName ''org/name'' = ''org/name''
   \<and> getBaseModelName ''name-v2'' = ''name''"
  using getBaseModelName_formats [of "''org''" "''name''" "''7b''"]
        getBaseModelName_formats [of "''org''" "''name''" "''v2''"]
  by simp

section \<open>Properties of the filter, sort and limit pipeline\<close>

lemma js_insert_key_diff:
  fixes f :: "'a \<Rightarrow> 'b::linordered_idom"
  shows "js_insert (\<lambda>a b. f a - f b) x ys = insort_key f x ys"
  by (induction ys) auto

lemma js_sort_key_diff:
  fixes f :: "'a \<Rightarrow> 'b::linordered_idom"
  shows "js_sort (\<lambda>a b. f a - f b) xs = sort_key f xs"
  by (induction xs) (simp_all add: js_sort_def js_insert_key_diff)

lemma js_sort_key_diff_desc:
  fixes f :: "'a \<Rightarrow> 'b::linordered_idom"
  shows "js_sort (\<lambda>a b. f b - f a) xs = sort_key (\<lambda>m. - f m) xs"
  using js_sort_key_diff [of "\<lambda>m. - f m" xs] by simp

lemma applySorting_spec_sort: "applySorting mode xs = spec_sort mode xs"
  by (simp add: applySorting_def spec_sort_def js_sort_key_diff js_sort_key_diff_desc)

lemma set_applySorting: "set (applySorting mode xs) = set xs"
  by (simp add: applySorting_spec_sort spec_sort_def)

lemma length_applySorting: "length (applySorting mode xs) = length xs"
  by (simp add: applySorting_spec_sort spec_sort_def)

lemma tag_predicate_intersects:
  "(case tags m of None \<Rightarrow> False | Some ts \<Rightarrow> list_ex (\<lambda>tag. tag \<in> set ts) sel)
   \<longleftrightarrow> set (tags_of m) \<inter> set sel \<noteq> {}"
  by (auto simp: tags_of_def list_ex_iff split: option.splits)

lemma filterByTags_spec: "filterByTags sel xs = spec_tag_filter sel xs"
  by (simp add: filterByTags_def spec_tag_filter_def tag_predicate_intersects)

lemma filterByDownloads_spec: "filterByDownloads r xs = spec_range_filter r xs"
  by (simp add: filterByDownloads_def spec_range_filter_def)

lemma js_slice0_take: "0 \<le> e \<Longrightarrow> js_slice0 xs e = take (nat e) xs"
  by (simp add: js_slice0_def Let_def min_def)

text \<open>
  Claim C1. For every raw list and every filter state with a non-negative result limit, the
  list the effect displays is the raw list after the tag filter, then the inclusive
  download-range filter, then the sort, then the truncation to the first \<open>cap\<close>
  items; with a limit of 2 and 5 items that pass both filters the output has exactly 2
  items, the front of the sorted sequence.
\<close>

theorem applyFilters_is_pipeline:
  assumes "0 \<le> cap"
  shows "applyFilters raw sel r mode cap
           = spec_pipeline raw sel r mode (nat cap)
       \<and> (cap = 2 \<and> length (spec_range_filter r (spec_tag_filter sel raw)) = 5
            \<longrightarrow> length (applyFilters raw sel r mode cap) = 2
              \<and> applyFilters raw sel r mode cap
                  = take 2 (spec_sort mode (spec_range_filter r (spec_tag_filter sel raw))))"
proof -
  let ?q = "spec_range_filter r (spec_tag_filter sel raw)"
  have eq: "applyFilters raw sel r mode cap = take (nat cap) (spec_sort mode ?q)"
    using assms
    by (simp add: applyFilters_def filterAndSort_def js_slice0_take applySorting_spec_sort
        filterByTags_spec filterByDownloads_spec)
  have len: "length (spec_sort mode ?q) = length ?q"
    by (simp add: spec_sort_def)
  have first: "applyFilters raw sel r mode cap
                 = spec_pipeline raw sel r mode (nat cap)"
    using eq by (simp add: spec_pipeline_def)
  have second: "length (applyFilters raw sel r mode cap) = 2
                \<and> applyFilters raw sel r mode cap = take 2 (spec_sort mode ?q)"
    if "cap = 2" and "length ?q = 5"
  proof -
    have "nat cap = 2" using that(1) by simp
    then show ?thesis using eq len that(2) by simp
  qed
  show ?thesis using first second by blast
qed

theorem applyFilters_is_pipeline_witness:
  "(0::int) \<le> 2
   \<and> length (spec_range_filter (0, 100) (spec_tag_filter [] five_items)) = 5
   \<and> applyFilters five_items [] (0, 100) ''relevance'' 2
       = spec_pipeline five_items [] (0, 100) ''relevance'' 2
   \<and> length (applyFilters five_items [] (0, 100) ''relevance'' 2) = 2
   \<and> map model_id (applyFilters five_items [] (0, 100) ''relevance'' 2) = [''org/b'', ''org/d'']"
proof -
  have h: "(0::int) \<le> 2" by simp
  have five: "length (spec_range_filter (0, 100) (spec_tag_filter [] five_items)) = 5"
    by (simp add: spec_range_filter_def spec_tag_filter_def five_items_def item_def)
  have front: "map model_id (take 2 (spec_sort ''relevance''
                 (spec_range_filter (0, 100) (spec_tag_filter [] five_items))))
               = [''org/b'', ''org/d'']"
    by (simp add: spec_sort_def spec_range_filter_def spec_tag_filter_def five_items_def item_def)
  note inst = applyFilters_is_pipeline [OF h, of five_items "[]" "(0, 100)" "''relevance''"]
  have a: "applyFilters five_items [] (0, 100) ''relevance'' 2
             = spec_pipeline five_items [] (0, 100) ''relevance'' 2"
    using inst by simp
  have b: "length (applyFilters five_items [] (0, 100) ''relevance'' 2) = 2"
    using inst five by blast
  have c: "applyFilters five_items [] (0, 100) ''relevance'' 2
             = take 2 (spec_sort ''relevance''
                 (spec_range_filter (0, 100) (spec_tag_filter [] five_items)))"
    using inst five by blast
  show ?thesis
    using h five a b front unfolding c by blast
qed

text \<open>
  Claim C8. For a sort mode other than the three recognised strings the sort step returns
  its input as it is, so the pipeline is the two filters followed by the truncation; the
  mode is accepted silently (the function has no error result).
\<close>

theorem unrecognized_sort_passthrough:
  assumes "mode \<notin> {''relevance'', ''downloads-high'', ''downloads-low''}"
  shows "applySorting mode xs = xs
       \<and> filterAndSort raw sel r mode = filterByDownloads r (filterByTags sel raw)
       \<and> applyFilters raw sel r mode limit
           = js_slice0 (filterByDownloads r (filterByTags sel raw)) limit"
  using assms by (simp add: applySorting_def filterAndSort_def applyFilters_def)

theorem unrecognized_sort_passthrough_witness:
  "''downloads-desc'' \<notin> {''relevance'', ''downloads-high'', ''downloads-low''}
   \<and> applySorting ''downloads-desc'' five_items = five_items
   \<and> map model_id (applyFilters five_items [] (0, 100) ''downloads-desc'' 3)
       = [''org/a'', ''org/b'', ''org/c'']"
proof -
  have h: "''downloads-desc'' \<notin> {''relevance'', ''downloads-high'', ''downloads-low''}"
    by simp
  show ?thesis
    using unrecognized_sort_passthrough [OF h, of five_items five_items "[]" "(0, 100)" 3]
    by (simp add: filterByDownloads_def filterByTags_def js_slice0_def five_items_def item_def)
qed

lemma set_filterByTags_mono:
  assumes "sel \<noteq> []" and "set sel \<subseteq> set sel'"
  shows "set (filterByTags sel xs) \<subseteq> set (filterByTags sel' xs)"
proof -
  have "sel' \<noteq> []" using assms by auto
  then show ?thesis
    using assms by (auto simp: filterByTags_spec spec_tag_filter_def)
qed

lemma set_filterAndSort:
  "set (filterAndSort raw sel r mode)
     = {m \<in> set (filterByTags sel raw). fst r \<le> downloads m \<and> downloads m \<le> snd r}"
  by (auto simp: filterAndSort_def set_applySorting filterByDownloads_def)

lemma set_js_slice0_subset: "set (js_slice0 xs e) \<subseteq> set xs"
  by (auto simp: js_slice0_def Let_def dest: in_set_takeD)

lemma js_slice0_all: "int (length xs) \<le> e \<Longrightarrow> js_slice0 xs e = xs"
  by (simp add: js_slice0_def Let_def)

text \<open>
  Claim C4, as stated, fails: the truncation comes after the sort, so a wider tag selection
  can push an item of the narrower output beyond the limit. With the limit 1 and the
  relevance order, selecting \<open>alpha\<close> shows \<open>org/x\<close>, and selecting \<open>alpha\<close> and \<open>beta\<close>
  shows only the closer \<open>org/y\<close>.
\<close>

theorem tag_widening_counterexample:
  "\<not> set (applyFilters two_tagged [''alpha''] (0, 10) ''relevance'' 1)
       \<subseteq> set (applyFilters two_tagged [''alpha'', ''beta''] (0, 10) ''relevance'' 1)"
  by (simp add: applyFilters_def filterAndSort_def applySorting_def filterByDownloads_def
      filterByTags_def js_sort_def js_slice0_def two_tagged_def item_def)

text \<open>
  Claim C4, amended. For a non-empty selection \<open>sel\<close> and a selection \<open>sel'\<close> that contains
  it (such as \<open>{A}\<close> and \<open>{A, B}\<close>), and for every raw list, download range and sort mode:
  the filtered and sorted sequence before truncation for \<open>sel'\<close> contains every item of
  the one for \<open>sel\<close>; and the pipeline output for \<open>sel'\<close> contains every item of the
  output for \<open>sel\<close> whenever the result limit does not truncate the sequence for \<open>sel'\<close>.
\<close>

theorem tag_selection_widens:
  assumes "sel \<noteq> []" and "set sel \<subseteq> set sel'"
  shows "set (filterAndSort raw sel r mode) \<subseteq> set (filterAndSort raw sel' r mode)
       \<and> (int (length (filterAndSort raw sel' r mode)) \<le> limit
            \<longrightarrow> set (applyFilters raw sel r mode limit)
                  \<subseteq> set (applyFilters raw sel' r mode limit))"
proof -
  have pre: "set (filterAndSort raw sel r mode) \<subseteq> set (filterAndSort raw sel' r mode)"
    using set_filterByTags_mono [OF assms, of raw] by (auto simp: set_filterAndSort)
  have post: "set (applyFilters raw sel r mode limit)
                \<subseteq> set (applyFilters raw sel' r mode limit)"
    if "int (length (filterAndSort raw sel' r mode)) \<le> limit"
  proof -
    have "applyFilters raw sel' r mode limit = filterAndSort raw sel' r mode"
      using that by (simp add: applyFilters_def js_slice0_all)
    moreover have "set (applyFilters raw sel r mode limit)
                     \<subseteq> set (filterAndSort raw sel r mode)"
      by (simp add: applyFilters_def set_js_slice0_subset)
    ultimately show ?thesis using pre by auto
  qed
  show ?thesis using pre post by blast
qed

theorem tag_selection_widens_witness:
  "[''alpha''] \<noteq> [] \<and> set [''alpha''] \<subseteq> set [''alpha'', ''beta'']
   \<and> int (length (filterAndSort two_tagged [''alpha'', ''beta''] (0, 10) ''relevance'')) \<le> 2
   \<and> set (filterAndSort two_tagged [''alpha''] (0, 10) ''relevance'')
       \<subseteq> set (filterAndSort two_tagged [''alpha'', ''beta''] (0, 10) ''relevance'')
   \<and> set (applyFilters two_tagged [''alpha''] (0, 10) ''relevance'' 2)
       \<subseteq> set (applyFilters two_tagged [''alpha'', ''beta''] (0, 10) ''relevance'' 2)"
proof -
  have h1: "[''alpha''] \<noteq> []" by simp
  have h2: "set [''alpha''] \<subseteq> set [''alpha'', ''beta'']" by simp
  have h3: "int (length (filterAndSort two_tagged [''alpha'', ''beta''] (0, 10) ''relevance'')) \<le> 2"
    by (simp add: filterAndSort_def length_applySorting filterByDownloads_def
        filterByTags_def two_tagged_def item_def)
  show ?thesis
    using tag_selection_widens [OF h1 h2, of two_tagged "(0, 10)" "''relevance''" 2] h1 h2 h3
    by blast
qed

section \<open>Properties of the grouping\<close>

lemma first_occurrences_snoc:
  "first_occurrences (ks @ [k]) =
     (if k \<in> set ks then first_occurrences ks else first_occurrences ks @ [k])"
  by (simp add: first_occurrences_def)

lemma set_first_occurrences: "set (first_occurrences ks) = set ks"
  by (simp add: first_occurrences_def)

lemma distinct_first_occurrences: "distinct (first_occurrences ks)"
  by (simp add: first_occurrences_def)

lemma map_of_tabulate:
  "map_of (map (\<lambda>k. (k, f k)) ks) k = (if k \<in> set ks then Some (f k) else None)"
  by (induction ks) auto

lemma update_tabulate_new:
  "k \<notin> set ks \<Longrightarrow> AList.update k v (map (\<lambda>k. (k, f k)) ks) = map (\<lambda>k. (k, f k)) ks @ [(k, v)]"
  by (induction ks) auto

lemma update_tabulate_old:
  "distinct ks \<Longrightarrow> k \<in> set ks \<Longrightarrow>
   AList.update k v (map (\<lambda>k. (k, f k)) ks) = map (\<lambda>k'. (k', if k' = k then v else f k')) ks"
  by (induction ks) (auto simp: update_tabulate_new)

lemma group_step_spec_groups:
  assumes "baseOf m \<notin> set Object_prototype_keys"
  shows "group_step (spec_groups seen) m = Inr (spec_groups (seen @ [m]))"
proof (cases "baseOf m \<in> baseOf ` set seen")
  case True
  then have mem: "baseOf m \<in> set (first_occurrences (map baseOf seen))"
    by (simp add: set_first_occurrences)
  have get: "js_get (spec_groups seen) (baseOf m) = Own (filter (\<lambda>x. baseOf x = baseOf m) seen)"
    using mem by (simp add: js_get_def spec_groups_def map_of_tabulate)
  have "AList.update (baseOf m) (filter (\<lambda>x. baseOf x = baseOf m) seen @ [m]) (spec_groups seen)
        = spec_groups (seen @ [m])"
    using True mem
    by (simp add: spec_groups_def first_occurrences_snoc update_tabulate_old
        distinct_first_occurrences)
  then show ?thesis
    using get by (simp add: group_step_def Let_def baseOf_def)
next
  case False
  then have notmem: "baseOf m \<notin> set (first_occurrences (map baseOf seen))"
    by (simp add: set_first_occurrences)
  have get: "js_get (spec_groups seen) (baseOf m) = Undefined"
    using notmem assms by (simp add: js_get_def spec_groups_def map_of_tabulate)
  let ?g = "AList.update (baseOf m) [] (spec_groups seen)"
  have get': "js_get ?g (baseOf m) = Own []"
    by (simp add: js_get_def update_conv')
  have no_earlier: "filter (\<lambda>x. baseOf x = baseOf m) seen = []"
    unfolding filter_empty_conv using False by (metis imageI)
  have others: "k \<in> set (first_occurrences (map baseOf seen)) \<Longrightarrow> k \<noteq> baseOf m" for k
    using notmem by auto
  let ?ks = "first_occurrences (map baseOf seen)"
  have lhs: "AList.update (baseOf m) ([] @ [m]) ?g
               = map (\<lambda>k. (k, filter (\<lambda>x. baseOf x = k) seen)) ?ks @ [(baseOf m, [m])]"
  proof -
    have "AList.update (baseOf m) ([] @ [m]) ?g = AList.update (baseOf m) [m] (spec_groups seen)"
      by (simp only: AList.update_last append_Nil)
    also have "\<dots> = map (\<lambda>k. (k, filter (\<lambda>x. baseOf x = k) seen)) ?ks @ [(baseOf m, [m])]"
      using notmem by (simp add: spec_groups_def update_tabulate_new)
    finally show ?thesis .
  qed
  have old_groups: "map (\<lambda>k. (k, filter (\<lambda>x. baseOf x = k) (seen @ [m]))) ?ks
                      = map (\<lambda>k. (k, filter (\<lambda>x. baseOf x = k) seen)) ?ks"
    using others by (intro map_cong) auto
  have rhs: "spec_groups (seen @ [m])
               = map (\<lambda>k. (k, filter (\<lambda>x. baseOf x = k) (seen @ [m]))) ?ks
                 @ [(baseOf m, filter (\<lambda>x. baseOf x = baseOf m) (seen @ [m]))]"
    using False by (simp add: spec_groups_def first_occurrences_snoc)
  have "AList.update (baseOf m) ([] @ [m]) ?g = spec_groups (seen @ [m])"
    unfolding lhs rhs old_groups by (simp add: no_earlier)
  then show ?thesis
    using get get' by (simp add: group_step_def Let_def baseOf_def)
qed

lemma forEach_group_spec_groups:
  assumes "\<forall>m\<in>set models. baseOf m \<notin> set Object_prototype_keys"
  shows "forEach_group (spec_groups seen) models = Inr (spec_groups (seen @ models))"
  using assms
proof (induction models arbitrary: seen)
  case Nil
  then show ?case by simp
next
  case (Cons m models)
  have "group_step (spec_groups seen) m = Inr (spec_groups (seen @ [m]))"
    using Cons.prems by (simp add: group_step_spec_groups)
  moreover have "forEach_group (spec_groups (seen @ [m])) models
                   = Inr (spec_groups ((seen @ [m]) @ models))"
    using Cons.prems by (intro Cons.IH) simp
  ultimately show ?case by simp
qed

lemma groupModelsByBaseName_spec_groups:
  assumes "\<forall>m\<in>set models. baseOf m \<notin> set Object_prototype_keys"
  shows "groupModelsByBaseName models = Inr (spec_groups models)"
  using forEach_group_spec_groups [OF assms, of "[]"]
  by (simp add: groupModelsByBaseName_def spec_groups_def first_occurrences_def)

lemma group_step_inherited:
  assumes "baseOf m \<in> set Object_prototype_keys" and "baseOf m \<notin> fst ` set grouped"
  shows "group_step grouped m = Inl TypeError"
proof -
  have "map_of grouped (baseOf m) = None"
    using assms(2) by (simp add: map_of_eq_None_iff)
  then have "js_get grouped (baseOf m) = Inherited"
    using assms(1) by (simp add: js_get_def)
  then show ?thesis
    by (simp add: group_step_def Let_def baseOf_def)
qed


lemma forEach_group_throws:
  assumes "\<forall>m\<in>set seen. baseOf m \<notin> set Object_prototype_keys"
    and "\<exists>m\<in>set models. baseOf m \<in> set Object_prototype_keys"
  shows "forEach_group (spec_groups seen) models = Inl TypeError"
  using assms
proof (induction models arbitrary: seen)
  case Nil
  then show ?case by simp
next
  case (Cons m models)
  show ?case
  proof (cases "baseOf m \<in> set Object_prototype_keys")
    case True
    have "fst ` set (spec_groups seen) = baseOf ` set seen"
      by (simp add: spec_groups_def image_image set_first_occurrences)
    then have "baseOf m \<notin> fst ` set (spec_groups seen)"
      using True Cons.prems(1) by auto
    then show ?thesis
      using True by (simp add: group_step_inherited)
  next
    case False
    then have step: "group_step (spec_groups seen) m = Inr (spec_groups (seen @ [m]))"
      by (rule group_step_spec_groups)
    have "forEach_group (spec_groups (seen @ [m])) models = Inl TypeError"
      using Cons.prems False by (intro Cons.IH) auto
    then show ?thesis using step by simp
  qed
qed

lemma groupModelsByBaseName_throws:
  assumes "\<exists>m\<in>set models. baseOf m \<in> set Object_prototype_keys"
  shows "groupModelsByBaseName models = Inl TypeError"
  using forEach_group_throws [of "[]" models] assms
  by (simp add: groupModelsByBaseName_def spec_groups_def first_occurrences_def)

lemma Object_entries_no_index:
  assumes "\<forall>kv\<in>set obj. \<not> is_array_index (fst kv)"
  shows "Object_entries obj = obj"
proof -
  have "filter (\<lambda>kv. is_array_index (fst kv)) obj = []"
    using assms by (simp add: filter_empty_conv)
  moreover have "filter (\<lambda>kv. \<not> is_array_index (fst kv)) obj = obj"
    using assms by (simp add: filter_id_conv)
  ultimately show ?thesis by (simp add: Object_entries_def)
qed

text \<open>
  Where no base name collides with a property of \<^verbatim>\<open>Object.prototype\<close> and none is an array
  index, the rendered groups are the partition by base name, in first-occurrence order, each
  group in input order.
\<close>

lemma renderedGroups_spec_groups:
  assumes "\<forall>m\<in>set models. baseOf m \<notin> set Object_prototype_keys"
    and "\<forall>m\<in>set models. \<not> is_array_index (baseOf m)"
  shows "renderedGroups models = Inr (spec_groups models)"
proof -
  have "\<forall>kv\<in>set (spec_groups models). \<not> is_array_index (fst kv)"
    using assms(2) by (auto simp: spec_groups_def set_first_occurrences)
  then show ?thesis
    using groupModelsByBaseName_spec_groups [OF assms(1)]
    by (simp add: renderedGroups_def Object_entries_no_index)
qed

text \<open>
  Claim C5 fails on the code for a bare base name that is an array index: the identifiers
  \<open>b-1\<close>, \<open>7-x\<close> have the base names \<open>b\<close>, \<open>7\<close> in first-occurrence order, the grouping
  creates the groups in that order, and their enumeration yields \<open>7\<close> before \<open>b\<close>.
\<close>

theorem renderedGroups_numeric_key_first:
  "map baseOf numeric_named = [''b'', ''7'']
   \<and> groupModelsByBaseName numeric_named
       = Inr [(''b'', [numeric_named ! 0]), (''7'', [numeric_named ! 1])]
   \<and> renderedGroups numeric_named
       = Inr [(''7'', [numeric_named ! 1]), (''b'', [numeric_named ! 0])]"
  by (simp add: renderedGroups_def groupModelsByBaseName_def group_step_def js_get_def
      Object_prototype_keys_def numeric_named_def baseOf_def getBaseModelName_def js_split_def
      Let_def item_def Object_entries_def is_array_index_def is_digit_def nat_of_digits_def)

text \<open>
  Claim C10 fails on the code for a bare base name that is a property of
  \<^verbatim>\<open>Object.prototype\<close>: on the identifiers \<open>org/a-1\<close>, \<open>constructor\<close> the grouping throws, and
  no group is built for either base name.
\<close>

theorem groupModelsByBaseName_prototype_key_throws:
  "map baseOf prototype_named = [''org/a'', ''constructor'']
   \<and> groupModelsByBaseName prototype_named = Inl TypeError"
  by (simp add: groupModelsByBaseName_def group_step_def js_get_def
      Object_prototype_keys_def prototype_named_def baseOf_def getBaseModelName_def js_split_def
      Let_def item_def)

section \<open>Properties of the group statistics\<close>

lemma Math_min_Min: "Math_min x xs = Min (set (x # xs))"
  by (simp only: Math_min_def Min.set_eq_fold)

lemma Math_max_Max: "Math_max x xs = Max (set (x # xs))"
  by (simp only: Math_max_def Max.set_eq_fold)

lemma hd_insort_key:
  "hd (insort_key f x ys) = (if ys = [] \<or> f x \<le> f (hd ys) then x else hd ys)"
  by (cases ys) auto

lemma sort_key_eq_Nil: "sort_key f xs = [] \<longleftrightarrow> xs = []"
  by (metis length_sort length_0_conv)

lemma hd_sort_key_first_min:
  fixes f :: "'a \<Rightarrow> 'b::linorder"
  assumes "xs \<noteq> []"
  shows "List.find (\<lambda>m. f m = Min (f ` set xs)) xs = Some (hd (sort_key f xs))"
  using assms
proof (induction xs)
  case Nil
  then show ?case by simp
next
  case (Cons x xs)
  show ?case
  proof (cases "xs = []")
    case True
    then show ?thesis by simp
  next
    case False
    let ?h = "hd (sort_key f xs)"
    let ?M = "Min (f ` set xs)"
    have ih: "List.find (\<lambda>m. f m = ?M) xs = Some ?h"
      using Cons.IH False by simp
    then have fh: "f ?h = ?M"
      by (auto simp: find_Some_iff)
    have Min_cons: "Min (f ` set (x # xs)) = min (f x) ?M"
      using False by simp
    have hd_eq: "hd (sort_key f (x # xs)) = (if f x \<le> ?M then x else ?h)"
      using False fh by (simp add: hd_insort_key sort_key_eq_Nil)
    show ?thesis
    proof (cases "f x \<le> ?M")
      case True
      then show ?thesis using Min_cons hd_eq by (simp add: min_def)
    next
      case False
      then have "min (f x) ?M = ?M" "f x \<noteq> ?M" by (auto simp: min_def)
      then show ?thesis using Min_cons hd_eq False ih by simp
    qed
  qed
qed

text \<open>
  Claim C6. On every non-empty group \<^const>\<open>getGroupStats\<close> returns statistics (it does
  not throw): the minimum and the maximum of the downloads of the group, the minimum distance
  of the group, and the tags of the earliest item of the group that has this minimum
  distance (an absent tag list counting as empty). On the group of an item with 10 downloads
  at distance 0.5 followed by an item with 30 downloads at distance 0.2, this gives 10, 30,
  0.2 and the tags of the second item.
\<close>

theorem getGroupStats_spec:
  assumes "models \<noteq> []"
  shows "\<exists>st m. getGroupStats models = Inr st
           \<and> group_minDownloads st = Min (downloads ` set models)
           \<and> group_maxDownloads st = Max (downloads ` set models)
           \<and> bestRelevance st = Min (distance ` set models)
           \<and> List.find (\<lambda>m. distance m = Min (distance ` set models)) models = Some m
           \<and> bestTags st = tags_of m"
proof -
  obtain m ms where models: "models = m # ms"
    using assms by (cases models) auto
  let ?best = "hd (sort_key distance models)"
  have first: "List.find (\<lambda>m. distance m = Min (distance ` set models)) models = Some ?best"
    using assms by (rule hd_sort_key_first_min)
  then have dist: "distance ?best = Min (distance ` set models)"
    by (auto simp: find_Some_iff)
  have nonempty: "sort_key distance models \<noteq> []"
    using assms by (simp add: sort_key_eq_Nil)
  have idx: "js_sort (\<lambda>a b. distance a - distance b) models ! 0 = ?best"
    using nonempty by (simp add: js_sort_key_diff hd_conv_nth)
  have mn: "Math_min (downloads m) (map downloads ms) = Min (downloads ` set models)"
    by (simp add: Math_min_Min models)
  have mx: "Math_max (downloads m) (map downloads ms) = Max (downloads ` set models)"
    by (simp add: Math_max_Max models)
  have "getGroupStats models =
          Inr \<lparr>group_minDownloads = Min (downloads ` set models),
               group_maxDownloads = Max (downloads ` set models),
               bestRelevance = distance ?best,
               bestTags = tags_of ?best\<rparr>"
    using idx mn mx unfolding models by (simp add: Let_def tags_of_def split: option.splits)
  then show ?thesis
    using first dist by simp
qed

theorem getGroupStats_spec_witness:
  "stats_group \<noteq> []
   \<and> getGroupStats stats_group
       = Inr \<lparr>group_minDownloads = 10, group_maxDownloads = 30, bestRelevance = 1 / 5,
              bestTags = tags_of (stats_group ! 1)\<rparr>"
proof -
  have h: "stats_group \<noteq> []" by (simp add: stats_group_def)
  obtain st m where st: "getGroupStats stats_group = Inr st"
    and mn: "group_minDownloads st = Min (downloads ` set stats_group)"
    and mx: "group_maxDownloads st = Max (downloads ` set stats_group)"
    and br: "bestRelevance st = Min (distance ` set stats_group)"
    and fi: "List.find (\<lambda>m. distance m = Min (distance ` set stats_group)) stats_group = Some m"
    and bt: "bestTags st = tags_of m"
    using getGroupStats_spec [OF h] by blast
  have dmin: "Min (distance ` set stats_group) = 1 / 5"
    by (simp add: stats_group_def item_def)
  have "m = stats_group ! 1"
    using fi unfolding dmin by (simp add: stats_group_def item_def)
  moreover have "group_minDownloads st = 10" "group_maxDownloads st = 30"
    using mn mx by (simp_all add: stats_group_def item_def)
  moreover have "bestRelevance st = 1 / 5" using br dmin by simp
  ultimately have "st = \<lparr>group_minDownloads = 10, group_maxDownloads = 30, bestRelevance = 1 / 5,
              bestTags = tags_of (stats_group ! 1)\<rparr>"
    using bt by simp
  then show ?thesis using h st by simp
qed

section \<open>Properties of the facets and of the search\<close>

text \<open>The table of \<^const>\<open>toLowerCase\<close> pairs every capital with the code unit \<open>0x20\<close>
  above it, and holds the capitals \<open>A\<close> to \<open>Z\<close> and \<open>0xC0\<close> to \<open>0xDE\<close> without \<open>0xD7\<close>.\<close>

lemma lower_case_letters_shift:
  "list_all2 (\<lambda>u l. of_char l = of_char u + (32::nat)) upper_case_letters lower_case_letters"
  by (simp add: upper_case_letters_def lower_case_letters_def)

lemma upper_case_letters_range:
  "map of_char upper_case_letters = [65 ..< 91] @ [192 ..< 215] @ [216 ..< (223::nat)]"
  by (simp add: upper_case_letters_def upt_rec)

lemma js_insert_default:
  "js_insert (\<lambda>a b. if a < b then - 1 else if b < a then 1 else (0::int)) (x::string) ys
     = insort x ys"
  by (induction ys) auto

lemma js_sort_default_sort: "js_sort_default xs = sort xs"
  by (induction xs) (simp_all add: js_sort_default_def js_sort_def js_insert_default)

lemma set_add_fold:
  "set (foldl (\<lambda>s tag. if P tag then set_add s tag else s) acc ts) = set acc \<union> {t \<in> set ts. P t}"
  by (induction ts arbitrary: acc) (auto simp: set_add_def)

lemma distinct_add_fold:
  "distinct acc \<Longrightarrow> distinct (foldl (\<lambda>s tag. if P tag then set_add s tag else s) acc ts)"
  by (induction ts arbitrary: acc) (auto simp: set_add_def)

lemma set_fst_facet_step:
  "set (fst (facet_step acc m)) = set (fst acc) \<union> {t \<in> set (tags_of m). filterTagForDisplay t}"
  by (simp add: facet_step_def Let_def tags_of_def set_add_fold split: option.splits)

lemma distinct_fst_facet_step:
  "distinct (fst acc) \<Longrightarrow> distinct (fst (facet_step acc m))"
  by (simp add: facet_step_def Let_def distinct_add_fold split: option.splits)

lemma snd_facet_step: "snd (facet_step acc m) = max (snd acc) (downloads m)"
  by (simp add: facet_step_def Let_def max_def)

lemma set_fst_facet_fold:
  "set (fst (foldl facet_step acc rs))
     = set (fst acc) \<union> {t. filterTagForDisplay t \<and> (\<exists>m\<in>set rs. t \<in> set (tags_of m))}"
  by (induction rs arbitrary: acc) (auto simp: set_fst_facet_step)

lemma distinct_fst_facet_fold:
  "distinct (fst acc) \<Longrightarrow> distinct (fst (foldl facet_step acc rs))"
  by (induction rs arbitrary: acc) (auto simp: distinct_fst_facet_step)

lemma snd_facet_fold:
  "snd (foldl facet_step acc rs) = Max (insert (snd acc) (downloads ` set rs))"
proof (induction rs arbitrary: acc)
  case Nil
  then show ?case by simp
next
  case (Cons m rs)
  have "Max (insert (max (snd acc) (downloads m)) (downloads ` set rs))
          = Max (insert (snd acc) (insert (downloads m) (downloads ` set rs)))"
    by (cases "rs = []") (simp_all add: max.assoc)
  then show ?case
    using Cons.IH [of "facet_step acc m"] by (simp add: snd_facet_step)
qed

lemma Max_insert_zero:
  fixes A :: "int set"
  assumes "finite A" and "A \<noteq> {}" and "\<forall>a\<in>A. 0 \<le> a"
  shows "Max (insert 0 A) = Max A"
proof -
  have "0 \<le> Max A" using assms by (meson Max_in)
  then show ?thesis using assms by (simp add: max_def)
qed

lemma availableTags_facetEffect:
  assumes "results st \<noteq> []"
  shows "availableTags (facetEffect st)
           = sorted_list_of_set
               {t. filterTagForDisplay t \<and> (\<exists>m\<in>set (results st). t \<in> set (tags_of m))}"
proof -
  let ?acc = "fst (foldl facet_step ([], 0) (results st))"
  have "set ?acc = {t. filterTagForDisplay t \<and> (\<exists>m\<in>set (results st). t \<in> set (tags_of m))}"
    by (simp add: set_fst_facet_fold)
  moreover have "distinct ?acc"
    by (simp add: distinct_fst_facet_fold)
  ultimately have "sorted_list_of_set
               {t. filterTagForDisplay t \<and> (\<exists>m\<in>set (results st). t \<in> set (tags_of m))} = sort ?acc"
    by (metis sorted_list_of_set_sort_remdups distinct_remdups_id)
  then show ?thesis
    using assms by (simp add: facetEffect_def Let_def js_sort_default_sort)
qed

lemma maxDownloads_facetEffect:
  assumes "results st \<noteq> []" and "\<forall>m\<in>set (results st). 0 \<le> downloads m"
  shows "maxDownloads (facetEffect st) = Max (downloads ` set (results st))"
proof -
  have "maxDownloads (facetEffect st) = Max (insert 0 (downloads ` set (results st)))"
    using assms(1) by (simp add: facetEffect_def Let_def snd_facet_fold)
  also have "\<dots> = Max (downloads ` set (results st))"
    using assms by (intro Max_insert_zero) auto
  finally show ?thesis .
qed

lemma downloadRange_facetEffect:
  assumes "results st \<noteq> []"
  shows "downloadRange (facetEffect st) = (0, maxDownloads (facetEffect st))"
  using assms by (simp add: facetEffect_def Let_def)


subsection \<open>A search that finds items, then a search that finds none\<close>

lemma searchRequest_ok:
  "searchRequest backend (FetchResponse 200 ''OK'' (JsonData (Some rs))) = Inr rs"
  by (simp add: searchRequest_def backend_def response_ok_def)

lemma submitSearch_success:
  assumes "js_trim (query st) \<noteq> []" and "searchRequest b f = Inr rs"
  shows "submitSearch b f st
           = facetEffect (st\<lparr>loading := False, error := None, selectedTags := [], results := rs\<rparr>)"
  using assms
  by (cases st) (simp add: submitSearch_def handleSearch_def try_catch_finally_def Let_def)

lemma query_customised: "js_trim (query customised) \<noteq> []"
  by (simp add: customised_def initialState_def js_trim_def is_whitespace_def)

lemma displayable_samples:
  "filterTagForDisplay ''text-generation''" "filterTagForDisplay ''pytorch''"
  "\<not> filterTagForDisplay ''en''" "\<not> filterTagForDisplay ''license:mit''"
  "\<not> filterTagForDisplay ''Transformers''" "filterTagForDisplay ''audio''"
  by (simp_all add: filterTagForDisplay_def toLowerCase_def upper_case_letters_def
      lower_case_letters_def startsWith_def COMMON_EXCLUDED_TAGS_def EXCLUDED_TAG_PREFIXES_def
      Let_def)

lemma facets_of_tagged_items:
  "foldl facet_step ([], 0) tagged_items = ([''text-generation'', ''pytorch'', ''audio''], 70)"
  by (simp add: tagged_items_def item_def facet_step_def Let_def set_add_def displayable_samples)

lemma first_answer:
  "submitSearch backend (FetchResponse 200 ''OK'' (JsonData (Some tagged_items))) customised
     = customised\<lparr>loading := False, error := None, selectedTags := [], results := tagged_items,
                  availableTags := [''audio'', ''pytorch'', ''text-generation''],
                  maxDownloads := 70, downloadRange := (0, 70)\<rparr>"
proof -
  have "tagged_items \<noteq> []" by (simp add: tagged_items_def)
  then show ?thesis
    by (simp add: submitSearch_success [OF query_customised searchRequest_ok] facetEffect_def
        Let_def facets_of_tagged_items js_sort_default_def js_sort_def)
qed

text \<open>
  Claim C2, as stated, fails when the raw result set becomes empty: the effect is guarded by
  \<^verbatim>\<open>results.length > 0\<close>, so after a search that found items and a second search that found
  none, the facets are still those of the first answer.
\<close>

theorem facets_stale_counterexample:
  "results after_empty_answer = []
   \<and> maxDownloads after_empty_answer \<noteq> 0
   \<and> availableTags after_empty_answer \<noteq> []"
proof -
  let ?first = "submitSearch backend (FetchResponse 200 ''OK'' (JsonData (Some tagged_items)))
                  customised"
  have q: "js_trim (query ?first) \<noteq> []"
    using query_customised by (simp add: first_answer)
  have settled: "after_empty_answer
          = facetEffect (?first\<lparr>loading := False, error := None, selectedTags := [], results := []\<rparr>)"
    unfolding after_empty_answer_def by (rule submitSearch_success [OF q searchRequest_ok])
  show ?thesis
    unfolding settled by (simp add: first_answer facetEffect_def)
qed

text \<open>
  Claim C2, amended. For every non-empty raw result set with non-negative download counts,
  the facet effect computes the facets from the whole raw set: \<open>availableTags\<close> is the
  ascending list of the distinct displayable tags of all raw items and \<open>maxDownloads\<close> is
  the maximum of their downloads. For an empty raw set the effect changes nothing, so the
  facets keep their previous values. The selection of tags has no influence on
  \<open>availableTags\<close>, and toggling a tag leaves \<open>availableTags\<close> as it is.
\<close>

theorem facetEffect_facets:
  "(results st \<noteq> [] \<and> (\<forall>m\<in>set (results st). 0 \<le> downloads m) \<longrightarrow>
       availableTags (facetEffect st)
         = sorted_list_of_set
             {t. filterTagForDisplay t \<and> (\<exists>m\<in>set (results st). t \<in> set (tags_of m))}
     \<and> maxDownloads (facetEffect st) = Max (downloads ` set (results st)))
   \<and> (results st = [] \<longrightarrow> facetEffect st = st)
   \<and> availableTags (facetEffect (st\<lparr>selectedTags := sel\<rparr>)) = availableTags (facetEffect st)
   \<and> availableTags (toggleTagFilter tag st) = availableTags st"
proof -
  have a: "availableTags (facetEffect st)
         = sorted_list_of_set
             {t. filterTagForDisplay t \<and> (\<exists>m\<in>set (results st). t \<in> set (tags_of m))}"
    if "results st \<noteq> []"
    using that by (rule availableTags_facetEffect)
  have b: "maxDownloads (facetEffect st) = Max (downloads ` set (results st))"
    if "results st \<noteq> []" and "\<forall>m\<in>set (results st). 0 \<le> downloads m"
    using that by (rule maxDownloads_facetEffect)
  have c: "facetEffect st = st" if "results st = []"
    using that by (simp add: facetEffect_def)
  have d: "availableTags (facetEffect (st\<lparr>selectedTags := sel\<rparr>)) = availableTags (facetEffect st)"
    by (simp add: facetEffect_def Let_def)
  have e: "availableTags (toggleTagFilter tag st) = availableTags st"
    by (simp add: toggleTagFilter_def)
  show ?thesis using a b c d e by blast
qed

theorem facetEffect_facets_witness:
  "results (initialState\<lparr>results := tagged_items\<rparr>) \<noteq> []
   \<and> list_all (\<lambda>m. 0 \<le> downloads m) (results (initialState\<lparr>results := tagged_items\<rparr>))
   \<and> availableTags (facetEffect (initialState\<lparr>results := tagged_items\<rparr>))
       = sorted_list_of_set
           {t. filterTagForDisplay t \<and> (\<exists>m\<in>set tagged_items. t \<in> set (tags_of m))}
   \<and> maxDownloads (facetEffect (initialState\<lparr>results := tagged_items\<rparr>)) = 70
   \<and> results initialState = []
   \<and> facetEffect initialState = initialState"
proof -
  let ?s = "initialState\<lparr>results := tagged_items\<rparr>"
  have h1: "results ?s \<noteq> []" by (simp add: tagged_items_def)
  have h2: "\<forall>m\<in>set (results ?s). 0 \<le> downloads m" by (simp add: tagged_items_def item_def)
  have h3: "results initialState = []" by (simp add: initialState_def)
  have mx: "Max (downloads ` set (results ?s)) = 70" by (simp add: tagged_items_def item_def)
  have "availableTags (facetEffect ?s)
       = sorted_list_of_set
           {t. filterTagForDisplay t \<and> (\<exists>m\<in>set tagged_items. t \<in> set (tags_of m))}"
    using facetEffect_facets [of ?s] h1 h2 by simp
  moreover have "maxDownloads (facetEffect ?s) = 70"
    using facetEffect_facets [of ?s] h1 h2 mx by simp
  moreover have "facetEffect initialState = initialState"
    using facetEffect_facets [of initialState] h3 by blast
  moreover have "list_all (\<lambda>m. 0 \<le> downloads m) (results ?s)"
    using h2 by (simp add: list_all_iff)
  ultimately show ?thesis using h1 h3 by blast
qed

text \<open>
  Claim C3, as stated, fails: \<^verbatim>\<open>handleSearch\<close> resets the selected tags only. A submission
  made with the sort mode \<open>downloads-high\<close> and the limit 10 leaves both in place.
\<close>

theorem search_keeps_sort_and_limit_counterexample:
  "sortOption (submitSearch backend (FetchResponse 200 ''OK'' (JsonData (Some tagged_items)))
                 customised) \<noteq> ''relevance''
   \<and> resultsLimit (submitSearch backend (FetchResponse 200 ''OK'' (JsonData (Some tagged_items)))
                 customised) \<noteq> 40"
  by (simp add: submitSearch_def handleSearch_def try_catch_finally_def searchRequest_def
      backend_def response_ok_def customised_def initialState_def js_trim_def is_whitespace_def
      facetEffect_def Let_def tagged_items_def)

lemma facetEffect_frame:
  "selectedTags (facetEffect st) = selectedTags st"
  "sortOption (facetEffect st) = sortOption st"
  "resultsLimit (facetEffect st) = resultsLimit st"
  "results (facetEffect st) = results st"
  "error (facetEffect st) = error st"
  "loading (facetEffect st) = loading st"
  by (simp_all add: facetEffect_def Let_def)

text \<open>
  Claim C3, amended. A submission with a non-blank query resets \<open>selectedTags\<close> to the empty
  list and keeps \<open>sortOption\<close> and \<open>resultsLimit\<close>; \<open>downloadRange\<close> becomes
  \<open>[0, maxDownloads]\<close> of the new raw set when the search succeeds with a non-empty list,
  and is kept otherwise. A submission with a blank query (empty, or white space only)
  changes nothing. Clearing the
  filters restores \<open>selectedTags = []\<close>, \<open>downloadRange = [0, maxDownloads]\<close>,
  \<open>sortOption = relevance\<close> and \<open>resultsLimit = 40\<close>, and editing the query leaves the
  four filter fields unchanged.
\<close>

theorem submitSearch_filter_state:
  "(js_trim (query st) \<noteq> [] \<longrightarrow>
       selectedTags (submitSearch b f st) = []
     \<and> sortOption (submitSearch b f st) = sortOption st
     \<and> resultsLimit (submitSearch b f st) = resultsLimit st
     \<and> downloadRange (submitSearch b f st)
         = (case searchRequest b f of
              Inr rs \<Rightarrow> if rs \<noteq> [] then (0, maxDownloads (submitSearch b f st))
                        else downloadRange st
            | Inl err \<Rightarrow> downloadRange st))
   \<and> (js_trim (query st) = [] \<longrightarrow> submitSearch b f st = st)
   \<and> selectedTags (clearFilters st) = []
   \<and> downloadRange (clearFilters st) = (0, maxDownloads st)
   \<and> sortOption (clearFilters st) = ''relevance''
   \<and> resultsLimit (clearFilters st) = 40
   \<and> selectedTags (setQuery q st) = selectedTags st
   \<and> downloadRange (setQuery q st) = downloadRange st
   \<and> sortOption (setQuery q st) = sortOption st
   \<and> resultsLimit (setQuery q st) = resultsLimit st"
proof -
  have blank: "submitSearch b f st = st" if "js_trim (query st) = []"
    using that by (simp add: submitSearch_def handleSearch_def Let_def)
  have sent: "selectedTags (submitSearch b f st) = []
     \<and> sortOption (submitSearch b f st) = sortOption st
     \<and> resultsLimit (submitSearch b f st) = resultsLimit st
     \<and> downloadRange (submitSearch b f st)
         = (case searchRequest b f of
              Inr rs \<Rightarrow> if rs \<noteq> [] then (0, maxDownloads (submitSearch b f st))
                        else downloadRange st
            | Inl err \<Rightarrow> downloadRange st)"
    if "js_trim (query st) \<noteq> []"
  proof (cases "searchRequest b f")
    case (Inl err)
    then show ?thesis
      using that by (simp add: submitSearch_def handleSearch_def try_catch_finally_def Let_def)
  next
    case (Inr rs)
    then show ?thesis
      using that
      by (simp add: submitSearch_def handleSearch_def try_catch_finally_def Let_def
          facetEffect_def)
  qed
  have clear: "selectedTags (clearFilters st) = []"
    "downloadRange (clearFilters st) = (0, maxDownloads st)"
    "sortOption (clearFilters st) = ''relevance''"
    "resultsLimit (clearFilters st) = 40"
    by (simp_all add: clearFilters_def)
  have typing: "selectedTags (setQuery q st) = selectedTags st"
    "downloadRange (setQuery q st) = downloadRange st"
    "sortOption (setQuery q st) = sortOption st"
    "resultsLimit (setQuery q st) = resultsLimit st"
    by (simp_all add: setQuery_def)
  show ?thesis using blank sent clear typing by blast
qed


theorem submitSearch_filter_state_witness:
  "js_trim (query customised) \<noteq> []
   \<and> selectedTags customised = [''pytorch'']
   \<and> selectedTags (submitSearch backend
         (FetchResponse 200 ''OK'' (JsonData (Some tagged_items))) customised) = []
   \<and> sortOption (submitSearch backend
         (FetchResponse 200 ''OK'' (JsonData (Some tagged_items))) customised) = ''downloads-high''
   \<and> resultsLimit (submitSearch backend
         (FetchResponse 200 ''OK'' (JsonData (Some tagged_items))) customised) = 10
   \<and> js_trim (query initialState) = []
   \<and> submitSearch backend (FetchResponse 200 ''OK'' (JsonData (Some tagged_items))) initialState
       = initialState
   \<and> js_trim (query blank_query) = []
   \<and> submitSearch backend (FetchResponse 200 ''OK'' (JsonData (Some tagged_items))) blank_query
       = blank_query"
proof -
  have h1: "js_trim (query customised) \<noteq> []"
    by (simp add: customised_def initialState_def js_trim_def is_whitespace_def)
  have h2: "js_trim (query initialState) = []"
    by (simp add: initialState_def js_trim_def)
  have h3: "js_trim (query blank_query) = []"
    by (simp add: blank_query_def js_trim_def is_whitespace_def)
  have before: "selectedTags customised = [''pytorch'']"
    "sortOption customised = ''downloads-high''" "resultsLimit customised = 10"
    by (simp_all add: customised_def initialState_def)
  note sent = submitSearch_filter_state
    [of customised backend "FetchResponse 200 ''OK'' (JsonData (Some tagged_items))"]
  note blank = submitSearch_filter_state
    [of initialState backend "FetchResponse 200 ''OK'' (JsonData (Some tagged_items))"]
  note spaces = submitSearch_filter_state
    [of blank_query backend "FetchResponse 200 ''OK'' (JsonData (Some tagged_items))"]
  show ?thesis
    using sent blank spaces h1 h2 h3 before by simp
qed

subsection \<open>The decimal numeral of a status code\<close>

lemma digit_char_code: "(d::nat) < 10 \<Longrightarrow> of_char (''0123456789'' ! d) = 48 + d"
proof -
  assume "d < 10"
  then consider "d = 0" | "d = 1" | "d = 2" | "d = 3" | "d = 4" | "d = 5" | "d = 6" | "d = 7"
    | "d = 8" | "d = 9"
    by atomize_elim presburger
  then show ?thesis by cases simp_all
qed

lemma digit_char_is_digit: "(d::nat) < 10 \<Longrightarrow> is_digit (''0123456789'' ! d)"
proof -
  assume "d < 10"
  then consider "d = 0" | "d = 1" | "d = 2" | "d = 3" | "d = 4" | "d = 5" | "d = 6" | "d = 7"
    | "d = 8" | "d = 9"
    by atomize_elim presburger
  then show ?thesis by cases (simp_all add: is_digit_def)
qed

lemma digit_char_zero: "(d::nat) < 10 \<Longrightarrow> ''0123456789'' ! d = CHR ''0'' \<longleftrightarrow> d = 0"
proof -
  assume "d < 10"
  then consider "d = 0" | "d = 1" | "d = 2" | "d = 3" | "d = 4" | "d = 5" | "d = 6" | "d = 7"
    | "d = 8" | "d = 9"
    by atomize_elim presburger
  then show ?thesis by cases simp_all
qed

lemma nat_of_digits_snoc: "nat_of_digits (s @ [c]) = 10 * nat_of_digits s + (of_char c - 48)"
  by (simp add: nat_of_digits_def)

lemma show_nat_nonempty: "show_nat n \<noteq> []"
  by (subst show_nat.simps) simp

lemma show_nat_digits: "list_all is_digit (show_nat n)"
proof (induction n rule: show_nat.induct)
  case (1 n)
  show ?case
  proof (cases "n < 10")
    case True
    then show ?thesis by (subst show_nat.simps) (simp add: digit_char_is_digit)
  next
    case False
    then show ?thesis
      using "1.IH" by (subst show_nat.simps) (simp add: digit_char_is_digit)
  qed
qed

lemma nat_of_digits_show_nat: "nat_of_digits (show_nat n) = n"
proof (induction n rule: show_nat.induct)
  case (1 n)
  show ?case
  proof (cases "n < 10")
    case True
    then show ?thesis
      by (subst show_nat.simps) (simp add: nat_of_digits_def digit_char_code)
  next
    case False
    then have "nat_of_digits (show_nat (n div 10)) = n div 10"
      using "1.IH" by simp
    then show ?thesis
      using False by (subst show_nat.simps) (simp add: nat_of_digits_snoc digit_char_code)
  qed
qed

lemma hd_show_nat: "n \<noteq> 0 \<Longrightarrow> hd (show_nat n) \<noteq> CHR ''0''"
proof (induction n rule: show_nat.induct)
  case (1 n)
  show ?case
  proof (cases "n < 10")
    case True
    then have "''0123456789'' ! n \<noteq> CHR ''0''"
      using "1.prems" digit_char_zero [of n] by blast
    then show ?thesis
      using True by (subst show_nat.simps) (simp del: nth_Cons_numeral nth_Cons_0)
  next
    case False
    then have "n div 10 \<noteq> 0" by simp
    then have "hd (show_nat (n div 10)) \<noteq> CHR ''0''"
      using "1.IH" False by simp
    then show ?thesis
      using False by (subst show_nat.simps) (simp add: show_nat_nonempty)
  qed
qed

lemma show_nat_zero: "show_nat 0 = ''0''"
  by (subst show_nat.simps) simp

lemma decimal_numeral_show_nat: "decimal_numeral (show_nat n) n"
proof (cases "n = 0")
  case True
  then show ?thesis
    by (simp add: decimal_numeral_def show_nat_zero is_digit_def nat_of_digits_def)
next
  case False
  then show ?thesis
    by (simp add: decimal_numeral_def show_nat_nonempty show_nat_digits hd_show_nat
        nat_of_digits_show_nat)
qed

lemma is_digit_code:
  assumes "is_digit c"
  obtains d :: nat where "d < 10" and "c = ''0123456789'' ! d" and "of_char c - 48 = d"
proof -
  from assms consider "c = CHR ''0''" | "c = CHR ''1''" | "c = CHR ''2''" | "c = CHR ''3''"
    | "c = CHR ''4''" | "c = CHR ''5''" | "c = CHR ''6''" | "c = CHR ''7''" | "c = CHR ''8''"
    | "c = CHR ''9''"
    by (auto simp: is_digit_def)
  then show thesis
  proof cases
    case 1 then show ?thesis using that [of 0] by simp
  next
    case 2 then show ?thesis using that [of 1] by simp
  next
    case 3 then show ?thesis using that [of 2] by simp
  next
    case 4 then show ?thesis using that [of 3] by simp
  next
    case 5 then show ?thesis using that [of 4] by simp
  next
    case 6 then show ?thesis using that [of 5] by simp
  next
    case 7 then show ?thesis using that [of 6] by simp
  next
    case 8 then show ?thesis using that [of 7] by simp
  next
    case 9 then show ?thesis using that [of 8] by simp
  next
    case 10 then show ?thesis using that [of 9] by simp
  qed
qed

lemma nat_of_digits_pos:
  "s \<noteq> [] \<Longrightarrow> list_all is_digit s \<Longrightarrow> hd s \<noteq> CHR ''0'' \<Longrightarrow> 0 < nat_of_digits s"
proof (induction s rule: rev_induct)
  case Nil
  then show ?case by simp
next
  case (snoc c xs)
  show ?case
  proof (cases "xs = []")
    case True
    from snoc.prems have "is_digit c" by simp
    then obtain d :: nat where d: "d < 10" "c = ''0123456789'' ! d" "of_char c - 48 = d"
      by (rule is_digit_code)
    have "d \<noteq> 0" using snoc.prems(3) True d(1,2) digit_char_zero [of d] by auto
    then show ?thesis using True d(3) by (simp add: nat_of_digits_def)
  next
    case False
    then have "0 < nat_of_digits xs"
      using snoc by simp
    then show ?thesis by (simp add: nat_of_digits_snoc)
  qed
qed

lemma decimal_numeral_unique: "decimal_numeral s n \<Longrightarrow> s = show_nat n"
proof (induction s arbitrary: n rule: rev_induct)
  case Nil
  then show ?case by (simp add: decimal_numeral_def)
next
  case (snoc c xs)
  from snoc.prems have digits: "list_all is_digit xs" "is_digit c"
    and canon: "xs @ [c] = ''0'' \<or> hd (xs @ [c]) \<noteq> CHR ''0''"
    and val: "nat_of_digits (xs @ [c]) = n"
    by (simp_all add: decimal_numeral_def)
  obtain d :: nat where d: "d < 10" "c = ''0123456789'' ! d" "of_char c - 48 = d"
    using digits(2) by (rule is_digit_code)
  have n: "n = 10 * nat_of_digits xs + d"
    using val d(3) by (simp add: nat_of_digits_snoc)
  show ?case
  proof (cases "xs = []")
    case True
    then have "n = d" using n by (simp add: nat_of_digits_def)
    then show ?thesis
      using True d(1,2) by (subst show_nat.simps) simp
  next
    case False
    then have hd: "hd xs \<noteq> CHR ''0''"
      using canon by (cases xs) auto
    then have pos: "0 < nat_of_digits xs"
      using False digits(1) by (simp add: nat_of_digits_pos)
    have "decimal_numeral xs (nat_of_digits xs)"
      using False digits(1) hd by (simp add: decimal_numeral_def)
    then have ih: "xs = show_nat (nat_of_digits xs)"
      by (rule snoc.IH)
    have "\<not> n < 10" "n div 10 = nat_of_digits xs" "n mod 10 = d"
      using n pos d(1) by simp_all
    then have "show_nat n = show_nat (nat_of_digits xs) @ [''0123456789'' ! d]"
      by (subst show_nat.simps) simp
    then show ?thesis using ih d(2) by simp
  qed
qed

lemma decimal_numeral_iff: "decimal_numeral s n \<longleftrightarrow> s = show_nat n"
  using decimal_numeral_unique decimal_numeral_show_nat by blast

subsection \<open>Failed searches\<close>

lemma handleSearch_no_escape: "fst (handleSearch b f st) = None"
  by (simp add: handleSearch_def try_catch_finally_def Let_def split: sum.splits)

text \<open>
  Claim C9. When a request is sent (non-blank query, configured backend) and \<^verbatim>\<open>fetch\<close>
  rejects or the response status is outside 200..299, \<^verbatim>\<open>handleSearch\<close> ends without an
  escaping exception and with one error message: for an HTTP error the text
  \<open>Server responded with\<close>, the canonical decimal numeral of the status code, a colon and
  the status text; for a thrown \<^verbatim>\<open>Error\<close> its message; for any other thrown value the
  fixed text. The raw result set is the one before the submission, the loading flag is
  cleared, and no effect runs.
\<close>

theorem handleSearch_failure:
  assumes "js_trim (query st) \<noteq> []" and "b = Some url" and "url \<noteq> []"
    and "(\<exists>e. f = FetchRejected e)
         \<or> (\<exists>status reason body. f = FetchResponse status reason body \<and> \<not> response_ok status)"
  shows "fst (handleSearch b f st) = None
       \<and> results (snd (handleSearch b f st)) = results st
       \<and> error (snd (handleSearch b f st))
           = Some (case f of
                     FetchRejected (Error message) \<Rightarrow> message
                   | FetchRejected NonError \<Rightarrow> ''An unknown error occurred''
                   | FetchResponse status reason body \<Rightarrow>
                       ''Server responded with '' @ show_nat status @ '': '' @ reason)
       \<and> (case f of
             FetchRejected e \<Rightarrow> True
           | FetchResponse status reason body \<Rightarrow> decimal_numeral (show_nat status) status)
       \<and> loading (snd (handleSearch b f st)) = False
       \<and> submitSearch b f st = snd (handleSearch b f st)"
proof -
  from assms(4) show ?thesis
  proof
    assume "\<exists>e. f = FetchRejected e"
    then obtain e where f: "f = FetchRejected e" by blast
    have req: "searchRequest b f = Inl e"
      using assms(2,3) f by (simp add: searchRequest_def)
    show ?thesis
      using assms(1) req f
      by (cases e)
        (simp_all add: handleSearch_def try_catch_finally_def submitSearch_def Let_def)
  next
    assume "\<exists>status reason body. f = FetchResponse status reason body \<and> \<not> response_ok status"
    then obtain status reason body where f: "f = FetchResponse status reason body"
      and bad: "\<not> response_ok status" by blast
    have req: "searchRequest b f
                 = Inl (Error (''Server responded with '' @ show_nat status @ '': '' @ reason))"
      using assms(2,3) f bad by (simp add: searchRequest_def)
    show ?thesis
      using assms(1) req f decimal_numeral_show_nat [of status]
      by (simp add: handleSearch_def try_catch_finally_def submitSearch_def Let_def)
  qed
qed

theorem handleSearch_failure_witness:
  "js_trim (query customised) \<noteq> [] \<and> backend = Some ''https://backend.example''
   \<and> \<not> response_ok 404 \<and> \<not> response_ok 500
   \<and> handleSearch backend (FetchResponse 404 ''Not Found'' (JsonData None)) customised
       = (None, customised\<lparr>selectedTags := [],
                           error := Some ''Server responded with 404: Not Found''\<rparr>)
   \<and> fst (handleSearch backend (FetchResponse 500 ''Internal Server Error'' (JsonData None))
            customised) = None
   \<and> error (snd (handleSearch backend
         (FetchResponse 500 ''Internal Server Error'' (JsonData None)) customised))
       = Some ''Server responded with 500: Internal Server Error''
   \<and> decimal_numeral ''500'' 500
   \<and> results (snd (handleSearch backend
         (FetchResponse 500 ''Internal Server Error'' (JsonData None)) customised))
       = results customised
   \<and> error (snd (handleSearch backend (FetchRejected (Error ''Failed to fetch'')) customised))
       = Some ''Failed to fetch''
   \<and> error (snd (handleSearch backend (FetchRejected NonError) customised))
       = Some ''An unknown error occurred''"
proof -
  have h1: "js_trim (query customised) \<noteq> []"
    by (simp add: customised_def initialState_def js_trim_def is_whitespace_def)
  have h2: "backend = Some ''https://backend.example''" by (simp add: backend_def)
  have h3: "''https://backend.example'' \<noteq> []" by simp
  have bad: "\<not> response_ok 404" "\<not> response_ok 500" by (simp_all add: response_ok_def)
  have h4: "(\<exists>e. FetchResponse 404 ''Not Found'' (JsonData None) = FetchRejected e)
         \<or> (\<exists>status reason body. FetchResponse 404 ''Not Found'' (JsonData None)
               = FetchResponse status reason body \<and> \<not> response_ok status)"
    using bad by simp
  have h5: "(\<exists>e. FetchResponse 500 ''Internal Server Error'' (JsonData None) = FetchRejected e)
         \<or> (\<exists>status reason body. FetchResponse 500 ''Internal Server Error'' (JsonData None)
               = FetchResponse status reason body \<and> \<not> response_ok status)"
    using bad by simp
  have h6: "(\<exists>e. FetchRejected (Error ''Failed to fetch'') = FetchRejected e)
         \<or> (\<exists>status reason body. FetchRejected (Error ''Failed to fetch'')
               = FetchResponse status reason body \<and> \<not> response_ok status)"
    by simp
  have h7: "(\<exists>e. FetchRejected NonError = FetchRejected e)
         \<or> (\<exists>status reason body. FetchRejected NonError
               = FetchResponse status reason body \<and> \<not> response_ok status)"
    by simp
  have num: "show_nat 404 = ''404''" "show_nat 500 = ''500''"
    by (simp_all add: show_nat.simps)
  note http404 = handleSearch_failure [OF h1 h2 h3 h4]
  note http500 = handleSearch_failure [OF h1 h2 h3 h5]
  note network = handleSearch_failure [OF h1 h2 h3 h6]
  note other = handleSearch_failure [OF h1 h2 h3 h7]
  have st404: "snd (handleSearch backend (FetchResponse 404 ''Not Found'' (JsonData None))
                 customised)
               = customised\<lparr>selectedTags := [],
                            error := Some ''Server responded with 404: Not Found''\<rparr>"
    by (simp add: handleSearch_def try_catch_finally_def searchRequest_def backend_def
        response_ok_def customised_def initialState_def js_trim_def is_whitespace_def num)
  have full404: "handleSearch backend (FetchResponse 404 ''Not Found'' (JsonData None)) customised
       = (None, customised\<lparr>selectedTags := [],
                           error := Some ''Server responded with 404: Not Found''\<rparr>)"
    using http404 st404 by (simp add: prod_eq_iff)
  show ?thesis
    using full404 http500 network other h1 h2 bad num by simp
qed

end
